theory Spec2Isabelle
  imports Complex_Main "HOL-Library.Word"
begin

unbundle bit_operations_syntax

section \<open>Cells (internal/protocol/messages.go)\<close>

text \<open>
  \<^verbatim>\<open>type CellType int\<close>: the low four bits hold the player id (0 empty, 1-4 players,
  5 neutral), bits \<^verbatim>\<open>0x30\<close> hold the flag. Go's \<^verbatim>\<open>int\<close> is modelled as \<open>int\<close>; the
  conversion \<^verbatim>\<open>byte(c)\<close> keeps the low eight bits and is written with an \<open>8 word\<close>.
\<close>

type_synonym CellType = int

definition CellEmpty :: CellType where "CellEmpty = 0"
definition CellPlayer1 :: CellType where "CellPlayer1 = 1"
definition CellPlayer2 :: CellType where "CellPlayer2 = 2"
definition CellPlayer3 :: CellType where "CellPlayer3 = 3"
definition CellPlayer4 :: CellType where "CellPlayer4 = 4"
definition CellNeutral :: CellType where "CellNeutral = 5"

definition CellFlagNormal :: "8 word" where "CellFlagNormal = 0x00"
definition CellFlagBase :: "8 word" where "CellFlagBase = 0x10"
definition CellFlagFortified :: "8 word" where "CellFlagFortified = 0x20"
definition CellFlagKilled :: "8 word" where "CellFlagKilled = 0x30"
definition FlagMask :: "8 word" where "FlagMask = 0x30"
definition PlayerMask :: "8 word" where "PlayerMask = 0x0F"

definition Player :: "CellType \<Rightarrow> int" where
  "Player c = uint ((word_of_int c :: 8 word) AND PlayerMask)"

definition Flag :: "CellType \<Rightarrow> 8 word" where
  "Flag c = (word_of_int c :: 8 word) AND FlagMask"

definition CanBeAttacked :: "CellType \<Rightarrow> bool" where
  "CanBeAttacked c \<longleftrightarrow> Flag c = CellFlagNormal"

section \<open>Board (internal/game/board.go)\<close>

record Position =
  Row :: int
  Col :: int

record Board =
  Size :: int
  Cells :: "CellType list list"
  BasePos :: "int \<rightharpoonup> Position"

text \<open>
  The grid is a slice of rows. \<^verbatim>\<open>NewBoard\<close> and \<^verbatim>\<open>Clone\<close> build \<open>Size\<close> rows of
  \<open>Size\<close> cells; this is the data invariant \<open>wf_board\<close> of the dense grid. A read
  \<^verbatim>\<open>b.Cells[r][c]\<close> outside the slices panics in Go; \<open>grid_read\<close> makes that
  panic a value.
\<close>

datatype error = IndexOutOfRange | NegativeLen

definition wf_board :: "Board \<Rightarrow> bool" where
  "wf_board b \<longleftrightarrow> int (length (Board.Cells b)) = Size b \<and>
     list_all (\<lambda>row. int (length row) = Size b) (Board.Cells b)"

definition NewBoard :: "int \<Rightarrow> Board" where
  "NewBoard n =
     \<lparr>Size = n, Cells = replicate (nat n) (replicate (nat n) CellEmpty),
      BasePos = Map.empty\<rparr>"

definition NewBoardFromData :: "CellType list list \<Rightarrow> (int \<rightharpoonup> Position) \<Rightarrow> Board" where
  "NewBoardFromData cells basePos =
     \<lparr>Size = int (length cells), Cells = cells, BasePos = basePos\<rparr>"

definition IsValid :: "Board \<Rightarrow> Position \<Rightarrow> bool" where
  "IsValid b pos \<longleftrightarrow> Row pos \<ge> 0 \<and> Row pos < Size b \<and> Col pos \<ge> 0 \<and> Col pos < Size b"

definition grid_read :: "CellType list list \<Rightarrow> int \<Rightarrow> int \<Rightarrow> error + CellType" where
  "grid_read cells r c =
     (if 0 \<le> r \<and> r < int (length cells) then
        (if 0 \<le> c \<and> c < int (length (cells ! nat r)) then Inr (cells ! nat r ! nat c)
         else Inl IndexOutOfRange)
      else Inl IndexOutOfRange)"

text \<open>The queries with the panic of the grid read explicit.\<close>

definition GetCell_checked :: "Board \<Rightarrow> Position \<Rightarrow> error + CellType" where
  "GetCell_checked b pos =
     (if \<not> IsValid b pos then Inr CellEmpty
      else grid_read (Board.Cells b) (Row pos) (Col pos))"

definition IsEmpty_checked :: "Board \<Rightarrow> Position \<Rightarrow> error + bool" where
  "IsEmpty_checked b pos =
     (case GetCell_checked b pos of Inl e \<Rightarrow> Inl e | Inr cell \<Rightarrow> Inr (cell = CellEmpty))"

definition IsOwnedBy_checked :: "Board \<Rightarrow> Position \<Rightarrow> int \<Rightarrow> error + bool" where
  "IsOwnedBy_checked b pos playerID =
     (case GetCell_checked b pos of Inl e \<Rightarrow> Inl e
      | Inr cell \<Rightarrow> Inr (Player cell = playerID \<and> cell \<noteq> CellEmpty \<and> cell \<noteq> CellNeutral))"

definition IsNeutral_checked :: "Board \<Rightarrow> Position \<Rightarrow> error + bool" where
  "IsNeutral_checked b pos =
     (case GetCell_checked b pos of Inl e \<Rightarrow> Inl e | Inr cell \<Rightarrow> Inr (cell = CellNeutral))"

definition IsOpponent_checked :: "Board \<Rightarrow> Position \<Rightarrow> int \<Rightarrow> error + bool" where
  "IsOpponent_checked b pos playerID =
     (case GetCell_checked b pos of Inl e \<Rightarrow> Inl e
      | Inr cell \<Rightarrow>
          (if cell = CellEmpty \<or> cell = CellNeutral then Inr False
           else Inr (Player cell \<noteq> playerID \<and> CanBeAttacked cell)))"

text \<open>
  The same queries as total functions of the grid; they agree with the checked ones on
  every board that satisfies \<open>wf_board\<close> (lemma \<open>checked_queries_agree\<close>), and the rest of
  the development is about them. On a grid with a row shorter than \<open>Size\<close> the source
  fails with an index out of range where these return a value, so every general theorem
  about them assumes \<open>wf_board\<close>.
\<close>

definition GetCell :: "Board \<Rightarrow> Position \<Rightarrow> CellType" where
  "GetCell b pos =
     (if \<not> IsValid b pos then CellEmpty
      else Board.Cells b ! nat (Row pos) ! nat (Col pos))"

definition IsEmpty :: "Board \<Rightarrow> Position \<Rightarrow> bool" where
  "IsEmpty b pos \<longleftrightarrow> GetCell b pos = CellEmpty"

definition IsOwnedBy :: "Board \<Rightarrow> Position \<Rightarrow> int \<Rightarrow> bool" where
  "IsOwnedBy b pos playerID \<longleftrightarrow>
     (let cell = GetCell b pos
      in Player cell = playerID \<and> cell \<noteq> CellEmpty \<and> cell \<noteq> CellNeutral)"

definition IsNeutral :: "Board \<Rightarrow> Position \<Rightarrow> bool" where
  "IsNeutral b pos \<longleftrightarrow> GetCell b pos = CellNeutral"

definition IsOpponent :: "Board \<Rightarrow> Position \<Rightarrow> int \<Rightarrow> bool" where
  "IsOpponent b pos playerID \<longleftrightarrow>
     (let cell = GetCell b pos
      in if cell = CellEmpty \<or> cell = CellNeutral then False
         else Player cell \<noteq> playerID \<and> CanBeAttacked cell)"

text \<open>
  \<^verbatim>\<open>GetNeighbors\<close>: the eight directions in the source's order, kept when in bounds.
  Coordinates are Go \<^verbatim>\<open>int\<close> (64 bit) and are modelled as \<open>int\<close>: for a position whose
  coordinates fit 64 bits a wrapped sum \<^verbatim>\<open>pos.Row + d.dr\<close> is negative and an unwrapped
  one is at least \<open>2 ^ 63\<close>, and both are out of bounds.
\<close>

definition directions :: "(int \<times> int) list" where
  "directions = [(-1, 0), (1, 0), (0, -1), (0, 1), (-1, -1), (-1, 1), (1, -1), (1, 1)]"

definition GetNeighbors :: "Board \<Rightarrow> Position \<Rightarrow> Position list" where
  "GetNeighbors b pos =
     filter (IsValid b)
       (map (\<lambda>(dr, dc). \<lparr>Row = Row pos + dr, Col = Col pos + dc\<rparr>) directions)"

definition GetAdjacentCells :: "Board \<Rightarrow> Position \<Rightarrow> CellType \<Rightarrow> Position list" where
  "GetAdjacentCells b pos cellType = filter (\<lambda>n. GetCell b n = cellType) (GetNeighbors b pos)"

definition GetEmptyNeighbors :: "Board \<Rightarrow> Position \<Rightarrow> Position list" where
  "GetEmptyNeighbors b pos = GetAdjacentCells b pos CellEmpty"

definition SetCell :: "Board \<Rightarrow> Position \<Rightarrow> CellType \<Rightarrow> Board" where
  "SetCell b pos cellType =
     (if IsValid b pos
      then b\<lparr>Cells := (Board.Cells b)[nat (Row pos) :=
                 (Board.Cells b ! nat (Row pos))[nat (Col pos) := cellType]]\<rparr>
      else b)"

text \<open>
  \<^verbatim>\<open>Clone\<close>: every new row is \<^verbatim>\<open>make([]CellType, b.Size)\<close>, zeroes, over which
  \<^verbatim>\<open>copy\<close> writes as many cells of the old row as fit.
\<close>

definition Board_Clone :: "Board \<Rightarrow> Board" where
  "Board_Clone b =
     \<lparr>Size = Size b,
      Cells = map (\<lambda>i. take (nat (Size b)) (Board.Cells b ! i)
                        @ replicate (nat (Size b) - length (Board.Cells b ! i)) 0)
                  [0..<nat (Size b)],
      BasePos = Board.BasePos b\<rparr>"

definition Board_ApplyMove :: "Board \<Rightarrow> Position \<Rightarrow> int \<Rightarrow> bool \<Rightarrow> Board" where
  "Board_ApplyMove b pos playerID isAttack =
     (let newBoard = Board_Clone b; cellType = playerID
      in SetCell newBoard pos cellType)"

text \<open>
  The positions of the grid in the order of the loops over \<^verbatim>\<open>row\<close> and \<^verbatim>\<open>col\<close>.
  \<^verbatim>\<open>GetPlayerCells\<close> indexes the grid at each of them without a check; under \<open>wf_board\<close>
  every such index is in range.
\<close>

definition all_positions :: "Board \<Rightarrow> Position list" where
  "all_positions b =
     concat (map (\<lambda>row. map (\<lambda>col. \<lparr>Row = row, Col = col\<rparr>) [0..Size b - 1]) [0..Size b - 1])"

definition GetPlayerCells :: "Board \<Rightarrow> int \<Rightarrow> Position list" where
  "GetPlayerCells b playerID =
     filter (\<lambda>p. Player (Board.Cells b ! nat (Row p) ! nat (Col p)) = playerID) (all_positions b)"

definition IsEdgePosition :: "Board \<Rightarrow> Position \<Rightarrow> bool" where
  "IsEdgePosition b pos \<longleftrightarrow>
     Row pos = 0 \<or> Row pos = Size b - 1 \<or> Col pos = 0 \<or> Col pos = Size b - 1"

definition IsCornerPosition :: "Board \<Rightarrow> Position \<Rightarrow> bool" where
  "IsCornerPosition b pos \<longleftrightarrow>
     (Row pos = 0 \<or> Row pos = Size b - 1) \<and> (Col pos = 0 \<or> Col pos = Size b - 1)"

section \<open>Players (internal/game/player.go)\<close>

record Player =
  ID :: int
  Name :: string
  Symbol :: CellType
  BasePos :: Position
  Cells :: "Position list"
  IsAlive :: bool
  HasUsedNeutrals :: bool

definition NewPlayer :: "int \<Rightarrow> string \<Rightarrow> CellType \<Rightarrow> Position \<Rightarrow> Player" where
  "NewPlayer id' name symbol basePos =
     \<lparr>ID = id', Name = name, Symbol = symbol, BasePos = basePos, Cells = [basePos],
      IsAlive = True, HasUsedNeutrals = False\<rparr>"

definition AddCell :: "Player \<Rightarrow> Position \<Rightarrow> Player" where
  "AddCell p pos = p\<lparr>Cells := Player.Cells p @ [pos]\<rparr>"

text \<open>\<^verbatim>\<open>RemoveCell\<close> cuts the first cell with the row and column of \<open>pos\<close> and then
  clears \<open>IsAlive\<close> when the list is empty, whether or not a cell was cut.\<close>

primrec remove_first :: "Position \<Rightarrow> Position list \<Rightarrow> Position list" where
  "remove_first pos [] = []"
| "remove_first pos (cell # cells) =
     (if Row cell = Row pos \<and> Col cell = Col pos then cells
      else cell # remove_first pos cells)"

definition RemoveCell :: "Player \<Rightarrow> Position \<Rightarrow> Player" where
  "RemoveCell p pos =
     (let cells = remove_first pos (Player.Cells p)
      in if length cells = 0 then p\<lparr>Cells := cells, IsAlive := False\<rparr>
         else p\<lparr>Cells := cells\<rparr>)"

definition Player_Clone :: "Player \<Rightarrow> Player" where
  "Player_Clone p =
     \<lparr>ID = ID p, Name = Name p, Symbol = Symbol p, BasePos = Player.BasePos p,
      Cells = Player.Cells p, IsAlive = IsAlive p, HasUsedNeutrals = HasUsedNeutrals p\<rparr>"

section \<open>Rules (internal/game/rules.go)\<close>

datatype MoveType = MoveGrow | MoveAttack

record Move =
  Position :: Position
  Type :: MoveType
  FromCell :: Position

definition IsAdjacent :: "Position \<Rightarrow> Position \<Rightarrow> bool" where
  "IsAdjacent pos1 pos2 \<longleftrightarrow>
     (let dr = \<bar>Row pos1 - Row pos2\<bar>; dc = \<bar>Col pos1 - Col pos2\<bar>
      in dr \<le> 1 \<and> dc \<le> 1 \<and> (dr \<noteq> 0 \<or> dc \<noteq> 0))"

subsection \<open>The two breadth-first searches\<close>

text \<open>
  Both loops pop the head of \<open>queue\<close> and push the neighbours that are not yet visited
  and are owned by the player. They end because the cells of the board are finitely many:
  \<open>bfs_todo\<close> counts the cells that are not yet visited.
\<close>

lemma finite_valid: "finite {p. IsValid b p}"
proof -
  have "{p. IsValid b p} \<subseteq> (\<lambda>(r, c). \<lparr>Row = r, Col = c\<rparr>) ` ({0..<Size b} \<times> {0..<Size b})"
  proof
    fix p assume "p \<in> {p. IsValid b p}"
    then have "(Row p, Col p) \<in> {0..<Size b} \<times> {0..<Size b}"
      by (simp add: IsValid_def)
    moreover have "p = (\<lambda>(r, c). \<lparr>Row = r, Col = c\<rparr>) (Row p, Col p)" by simp
    ultimately show "p \<in> (\<lambda>(r, c). \<lparr>Row = r, Col = c\<rparr>) ` ({0..<Size b} \<times> {0..<Size b})"
      by (rule rev_image_eqI)
  qed
  then show ?thesis by (rule finite_subset) simp
qed

lemma GetNeighbors_valid: "n \<in> set (GetNeighbors b p) \<Longrightarrow> IsValid b n"
  by (simp add: GetNeighbors_def)

definition bfs_todo :: "Board \<Rightarrow> Position list \<Rightarrow> Position set \<Rightarrow> nat" where
  "bfs_todo b queue visited = card (({p. IsValid b p} \<union> set queue) - visited)"

lemma bfs_todo_visit:
  assumes "current \<notin> visited" and "\<forall>n \<in> set ns. IsValid b n"
  shows "bfs_todo b (rest @ ns) (insert current visited) < bfs_todo b (current # rest) visited"
  unfolding bfs_todo_def
proof (rule psubset_card_mono)
  show "finite (({p. IsValid b p} \<union> set (current # rest)) - visited)"
    by (simp add: finite_valid)
  show "({p. IsValid b p} \<union> set (rest @ ns)) - insert current visited
        \<subset> ({p. IsValid b p} \<union> set (current # rest)) - visited"
    using assms by auto
qed

lemma bfs_todo_skip:
  assumes "\<forall>n \<in> set ns. IsValid b n"
  shows "bfs_todo b (rest @ ns) visited \<le> bfs_todo b (current # rest) visited"
  unfolding bfs_todo_def
proof (rule card_mono)
  show "finite (({p. IsValid b p} \<union> set (current # rest)) - visited)"
    by (simp add: finite_valid)
  show "({p. IsValid b p} \<union> set (rest @ ns)) - visited
        \<subseteq> ({p. IsValid b p} \<union> set (current # rest)) - visited"
    using assms by auto
qed

lemma bfs_todo_step:
  assumes "current \<notin> visited"
  shows "bfs_todo b (rest @ filter P (GetNeighbors b current)) (insert current visited)
         < bfs_todo b (current # rest) visited"
  by (rule bfs_todo_visit [OF assms]) (auto dest: GetNeighbors_valid)

lemma bfs_todo_again:
  "bfs_todo b (rest @ filter P (GetNeighbors b current)) visited
   \<le> bfs_todo b (current # rest) visited"
  by (rule bfs_todo_skip) (auto dest: GetNeighbors_valid)

lemma bfs_todo_drop: "bfs_todo b rest visited \<le> bfs_todo b (current # rest) visited"
  using bfs_todo_skip [of "[]" b rest visited current] by simp

text \<open>The loop of \<^verbatim>\<open>GetReachableCells\<close>; \<open>visited\<close> is the map \<^verbatim>\<open>map[Position]bool\<close>.\<close>

function reachable_loop ::
  "Board \<Rightarrow> int \<Rightarrow> Position list \<Rightarrow> Position set \<Rightarrow> Position list \<Rightarrow> Position list" where
  "reachable_loop b playerID queue visited reachable =
     (case queue of
        [] \<Rightarrow> reachable
      | current # rest \<Rightarrow>
          if current \<in> visited then reachable_loop b playerID rest visited reachable
          else
            let visited' = insert current visited;
                reachable' = reachable @ [current];
                queue' = rest @ filter (\<lambda>neighbor. neighbor \<notin> visited' \<and> IsOwnedBy b neighbor playerID)
                                  (GetNeighbors b current)
            in reachable_loop b playerID queue' visited' reachable')"
  by pat_completeness auto

termination reachable_loop
  apply (relation "inv_image (less_than <*lex*> less_than)
         (\<lambda>(b, playerID, queue, visited, reachable). (bfs_todo b queue visited, length queue))")
  subgoal by (intro wf_inv_image wf_lex_prod wf_less_than)
  subgoal for b playerID queue visited reachable current rest
    using bfs_todo_drop [of b rest visited current] by (simp add: le_less)
  subgoal for b playerID queue visited reachable current rest x xa xb
    by (simp add: bfs_todo_step)
  done

declare reachable_loop.simps [simp del]

definition GetReachableCells :: "Board \<Rightarrow> int \<Rightarrow> Position list" where
  "GetReachableCells b playerID =
     (case Board.BasePos b playerID of
        None \<Rightarrow> []
      | Some basePos \<Rightarrow>
          if \<not> IsOwnedBy b basePos playerID then
            (let playerCells = GetPlayerCells b playerID
             in if length playerCells = 0 then []
                else reachable_loop b playerID [playerCells ! 0] {} [])
          else reachable_loop b playerID [basePos] {} [])"

text \<open>
  The loop of \<^verbatim>\<open>IsConnectedToBase\<close>. It has no test of \<open>visited\<close> at the head of the
  queue, so a cell that was pushed twice is expanded twice; the second measure, the
  length of the visited prefix of the queue, covers those steps.
\<close>

lemma takeWhile_append_none:
  assumes "\<forall>n \<in> set ns. \<not> P n"
  shows "takeWhile P (xs @ ns) = takeWhile P xs"
proof (induction xs)
  case Nil
  from assms show ?case by (cases ns) simp_all
next
  case (Cons x xs)
  then show ?case by simp
qed

function connected_loop ::
  "Board \<Rightarrow> int \<Rightarrow> Position \<Rightarrow> Position list \<Rightarrow> Position set \<Rightarrow> bool" where
  "connected_loop b playerID pos queue visited =
     (case queue of
        [] \<Rightarrow> False
      | current # rest \<Rightarrow>
          if Row current = Row pos \<and> Col current = Col pos then True
          else
            let visited' = insert current visited;
                queue' = rest @ filter (\<lambda>neighbor. neighbor \<notin> visited' \<and> IsOwnedBy b neighbor playerID)
                                  (GetNeighbors b current)
            in connected_loop b playerID pos queue' visited')"
  by pat_completeness auto

lemma connected_step_decreases:
  fixes b :: Board and visited :: "Position set"
  defines "m \<equiv> (\<lambda>queue visited. (bfs_todo b queue visited, length (takeWhile (\<lambda>p. p \<in> visited) queue)))"
  shows "(m (rest @ filter (\<lambda>neighbor. neighbor \<notin> insert current visited \<and> Q neighbor)
                    (GetNeighbors b current)) (insert current visited),
          m (current # rest) visited) \<in> less_than <*lex*> less_than"
proof (cases "current \<in> visited")
  case False
  then show ?thesis by (simp add: m_def bfs_todo_step)
next
  case True
  then have v: "insert current visited = visited" by auto
  have "takeWhile (\<lambda>p. p \<in> visited)
          (rest @ filter (\<lambda>neighbor. neighbor \<notin> visited \<and> Q neighbor) (GetNeighbors b current))
        = takeWhile (\<lambda>p. p \<in> visited) rest"
    by (rule takeWhile_append_none) simp
  with True show ?thesis
    using bfs_todo_again [of b rest "\<lambda>neighbor. neighbor \<notin> visited \<and> Q neighbor" current visited]
    by (simp add: m_def v le_less)
qed

termination connected_loop
  apply (relation "inv_image (less_than <*lex*> less_than)
         (\<lambda>(b, playerID, pos, queue, visited).
            (bfs_todo b queue visited, length (takeWhile (\<lambda>p. p \<in> visited) queue)))")
  subgoal by (intro wf_inv_image wf_lex_prod wf_less_than)
  subgoal for b playerID pos queue visited current rest x xa
    using connected_step_decreases [of b rest current visited "\<lambda>n. IsOwnedBy b n playerID"]
    by simp
  done

declare connected_loop.simps [simp del]

definition IsConnectedToBase :: "Board \<Rightarrow> int \<Rightarrow> Position \<Rightarrow> bool" where
  "IsConnectedToBase b playerID pos =
     (case Board.BasePos b playerID of
        None \<Rightarrow> False
      | Some basePos \<Rightarrow> connected_loop b playerID pos [basePos] {})"

subsection \<open>Legal moves\<close>

definition first_moves :: "Board \<Rightarrow> Move list" where
  "first_moves b =
     map (\<lambda>pos. \<lparr>Position = pos, Type = MoveGrow, FromCell = pos\<rparr>)
       (filter (IsEmpty b) (all_positions b))"

definition moves_to :: "Board \<Rightarrow> int \<Rightarrow> Position \<Rightarrow> Position \<Rightarrow> Move list" where
  "moves_to b playerID fromCell neighbor =
     (if IsOwnedBy b neighbor playerID then []
      else (if IsEmpty b neighbor
            then [\<lparr>Position = neighbor, Type = MoveGrow, FromCell = fromCell\<rparr>] else [])
         @ (if IsOpponent b neighbor playerID
            then [\<lparr>Position = neighbor, Type = MoveAttack, FromCell = fromCell\<rparr>] else []))"

definition GetValidMoves :: "Board \<Rightarrow> int \<Rightarrow> Move list" where
  "GetValidMoves b playerID =
     (let reachableCells = GetReachableCells b playerID
      in if length reachableCells = 0 then first_moves b
         else concat (map (\<lambda>fromCell. concat (map (moves_to b playerID fromCell)
                                                  (GetNeighbors b fromCell)))
                          reachableCells))"

definition ValidMove :: "Board \<Rightarrow> int \<Rightarrow> Move \<Rightarrow> bool" where
  "ValidMove board playerID move =
     (if \<not> IsValid board (Position move) then False
      else if \<not> IsConnectedToBase board playerID (FromCell move) then False
      else (case Type move of
              MoveGrow \<Rightarrow> IsEmpty board (Position move) \<and> IsAdjacent (FromCell move) (Position move)
            | MoveAttack \<Rightarrow> IsOpponent board (Position move) playerID
                              \<and> IsAdjacent (FromCell move) (Position move)))"

definition GetNeutralPositions :: "Board \<Rightarrow> int \<Rightarrow> Position list" where
  "GetNeutralPositions b playerID =
     filter (\<lambda>cell. GetCell b cell \<noteq> CellNeutral) (GetPlayerCells b playerID)"

section \<open>Game state (internal/game/state.go)\<close>

record GameState =
  Board :: Board
  Players :: "Player list"
  CurrentPlayer :: int
  YourPlayerID :: int

text \<open>
  \<^verbatim>\<open>Players\<close> is a slice of pointers. A lookup returns the first player with the id;
  where the source then writes through the pointer, the model writes at the index
  \<open>player_index\<close> of that player.
\<close>

primrec player_index :: "Player list \<Rightarrow> int \<Rightarrow> nat option" where
  "player_index [] playerID = None"
| "player_index (p # ps) playerID =
     (if ID p = playerID then Some 0
      else (case player_index ps playerID of None \<Rightarrow> None | Some i \<Rightarrow> Some (Suc i)))"

definition GetCurrentPlayer :: "GameState \<Rightarrow> Player option" where
  "GetCurrentPlayer s = find (\<lambda>p. ID p = CurrentPlayer s) (Players s)"

definition GetYourPlayer :: "GameState \<Rightarrow> Player option" where
  "GetYourPlayer s = find (\<lambda>p. ID p = YourPlayerID s) (Players s)"

definition IsMyTurn :: "GameState \<Rightarrow> bool" where
  "IsMyTurn s \<longleftrightarrow> CurrentPlayer s = YourPlayerID s"

definition GetOpponents :: "GameState \<Rightarrow> Player list" where
  "GetOpponents s = filter (\<lambda>p. ID p \<noteq> YourPlayerID s \<and> IsAlive p) (Players s)"

definition GetAlivePlayers :: "GameState \<Rightarrow> Player list" where
  "GetAlivePlayers s = filter IsAlive (Players s)"

definition Clone :: "GameState \<Rightarrow> GameState" where
  "Clone s =
     \<lparr>Board = Board_Clone (Board s), Players = map Player_Clone (Players s),
      CurrentPlayer = CurrentPlayer s, YourPlayerID = YourPlayerID s\<rparr>"

text \<open>
  \<^verbatim>\<open>AdvancePlayer\<close>: the index of the current player among the alive players, \<open>-1\<close>
  when it is not among them, then the next one in the ring.
\<close>

definition AdvancePlayer :: "GameState \<Rightarrow> GameState" where
  "AdvancePlayer s =
     (let alive = GetAlivePlayers s
      in if length alive = 0 then s
         else
           let currentIdx = (case player_index alive (CurrentPlayer s) of
                               None \<Rightarrow> - 1 | Some i \<Rightarrow> int i);
               nextIdx = (currentIdx + 1) mod int (length alive)
           in s\<lparr>CurrentPlayer := ID (alive ! nat nextIdx)\<rparr>)"

text \<open>
  \<^verbatim>\<open>GameState.ApplyMove\<close>. The source calls \<^verbatim>\<open>newState.Board.ApplyMove(...)\<close> as a
  statement: \<^verbatim>\<open>Board.ApplyMove\<close> writes to a clone of its receiver and returns it, and
  the returned board is dropped. The loop over \<^verbatim>\<open>GetOpponents()\<close> writes to every alive
  player whose id is not \<open>YourPlayerID\<close>; the current player is written last.
\<close>

definition ApplyMove :: "GameState \<Rightarrow> Move \<Rightarrow> GameState" where
  "ApplyMove s move =
     (let newState = Clone s
      in case player_index (Players newState) (CurrentPlayer newState) of
           None \<Rightarrow> newState
         | Some i \<Rightarrow>
             let player = Players newState ! i;
                 dropped = Board_ApplyMove (Board newState) (Position move) (ID player)
                             (Type move = MoveAttack);
                 players' =
                   (case Type move of
                      MoveGrow \<Rightarrow> (Players newState)[i := AddCell player (Position move)]
                    | MoveAttack \<Rightarrow>
                        let removed = map (\<lambda>opp. if ID opp \<noteq> YourPlayerID newState \<and> IsAlive opp
                                                 then RemoveCell opp (Position move) else opp)
                                          (Players newState)
                        in removed[i := AddCell (removed ! i) (Position move)])
             in AdvancePlayer (newState\<lparr>Players := players'\<rparr>))"

definition ApplyNeutrals :: "GameState \<Rightarrow> Position list \<Rightarrow> GameState" where
  "ApplyNeutrals s positions =
     (let newState = Clone s
      in case player_index (Players newState) (YourPlayerID newState) of
           None \<Rightarrow> newState
         | Some i \<Rightarrow>
             let player = (Players newState ! i)\<lparr>HasUsedNeutrals := True\<rparr>;
                 board' = foldl (\<lambda>b pos. SetCell b pos CellNeutral) (Board newState) positions;
                 player' = foldl RemoveCell player positions
             in AdvancePlayer (newState\<lparr>Board := board', Players := (Players newState)[i := player']\<rparr>))"

section \<open>Heuristic strategy (internal/strategy/evaluator.go)\<close>

text \<open>
  Scores are \<^verbatim>\<open>float64\<close> in the source and real numbers here. The theorems on the
  decisions below use the scores only through the order in which the sort leaves the
  candidates, and hold for every order.
\<close>

record EvaluationFactors =
  TerritoryGain :: real
  StrategicPosition :: real
  ThreatRemoval :: real
  Connectivity :: real
  ExpansionPotential :: real
  DefensiveValue :: real

definition DefaultFactors :: EvaluationFactors where
  "DefaultFactors =
     \<lparr>TerritoryGain = 1.0, StrategicPosition = 0.5, ThreatRemoval = 1.5, Connectivity = 0.3,
      ExpansionPotential = 0.4, DefensiveValue = 0.2\<rparr>"

definition improvesConnectivity :: "Move \<Rightarrow> GameState \<Rightarrow> int \<Rightarrow> bool" where
  "improvesConnectivity move state playerID =
     (if IsConnectedToBase (Board state) playerID (Position move) then False
      else list_ex (\<lambda>cell. IsAdjacent cell (Position move))
             (GetReachableCells (Board state) playerID))"

definition hasDefensiveValue :: "Move \<Rightarrow> GameState \<Rightarrow> int \<Rightarrow> bool" where
  "hasDefensiveValue move state playerID =
     (case GetYourPlayer state of
        None \<Rightarrow> False
      | Some player \<Rightarrow>
          if IsAdjacent (Position move) (Player.BasePos player) then True
          else list_ex (\<lambda>opp. list_ex (\<lambda>adj. Row adj = Row (Position move)
                                            \<and> Col adj = Col (Position move))
                                 (GetNeighbors (Board state) (Player.BasePos opp)))
                 (GetOpponents state))"

definition evaluateMove :: "EvaluationFactors \<Rightarrow> Move \<Rightarrow> GameState \<Rightarrow> int \<Rightarrow> real" where
  "evaluateMove factors move state playerID =
     (let board = Board state;
          score = 0;
          score = score + 10.0 * TerritoryGain factors;
          score = (if IsCornerPosition board (Position move)
                   then score + 8.0 * StrategicPosition factors
                   else if IsEdgePosition board (Position move)
                   then score + 5.0 * StrategicPosition factors
                   else score);
          score = (if Type move = MoveAttack then score + 15.0 * ThreatRemoval factors
                   else score);
          score = (if improvesConnectivity move state playerID
                   then score + 3.0 * Connectivity factors else score);
          emptyNeighbors = length (GetEmptyNeighbors board (Position move));
          score = score + real emptyNeighbors * 4.0 * ExpansionPotential factors;
          score = (if hasDefensiveValue move state playerID
                   then score + 2.0 * DefensiveValue factors else score)
      in score)"

definition scoreMoves :: "EvaluationFactors \<Rightarrow> Move list \<Rightarrow> GameState \<Rightarrow> (Move \<times> real) list" where
  "scoreMoves factors moves state =
     (case GetYourPlayer state of
        None \<Rightarrow> []
      | Some player \<Rightarrow> map (\<lambda>move. (move, evaluateMove factors move state (ID player))) moves)"

text \<open>
  The selection sort that the source writes out three times: for each \<open>i\<close> the first
  index of a greatest score in \<open>scored[i:]\<close>, found with \<^verbatim>\<open>>\<close>, is swapped to \<open>i\<close>.
\<close>

definition max_index :: "('a \<times> real) list \<Rightarrow> nat \<Rightarrow> nat" where
  "max_index scored i =
     fold (\<lambda>j maxIdx. if snd (scored ! j) > snd (scored ! maxIdx) then j else maxIdx)
       [i + 1 ..< length scored] i"

definition sort_desc :: "('a \<times> real) list \<Rightarrow> ('a \<times> real) list" where
  "sort_desc scored =
     fold (\<lambda>i scored. let maxIdx = max_index scored i
                       in scored[i := scored ! maxIdx, maxIdx := scored ! i])
       [0 ..< length scored - 1] scored"

text \<open>
  The loop of \<^verbatim>\<open>selectDiverseMoves\<close>; \<open>selectedPositions\<close> is the key set of the map.
\<close>

fun diverse_loop ::
  "(Move \<times> real) list \<Rightarrow> int \<Rightarrow> Move list \<Rightarrow> Position set \<Rightarrow> Move list" where
  "diverse_loop [] count selected selectedPositions = selected"
| "diverse_loop (sm # scored) count selected selectedPositions =
     (if int (length selected) \<ge> count then selected
      else if FromCell (fst sm) \<notin> selectedPositions \<or> int (card selectedPositions) \<ge> count - 1
      then diverse_loop scored count (selected @ [fst sm])
             (insert (FromCell (fst sm)) selectedPositions)
      else diverse_loop scored count selected selectedPositions)"

text \<open>
  \<^verbatim>\<open>make([]game.Move, 0, count)\<close> panics when \<open>count\<close> is negative; the sort before it
  has no other effect then.
\<close>

definition selectDiverseMoves :: "(Move \<times> real) list \<Rightarrow> int \<Rightarrow> error + Move list" where
  "selectDiverseMoves scored count =
     (if int (length scored) \<le> count then Inr (map fst scored)
      else
        let sorted = sort_desc scored
        in if count < 0 then Inl NegativeLen
           else Inr (diverse_loop sorted count [] {}))"

definition Heuristic_DecideMoves ::
  "EvaluationFactors \<Rightarrow> GameState \<Rightarrow> int \<Rightarrow> error + Move list" where
  "Heuristic_DecideMoves factors state count =
     (if \<not> IsMyTurn state then Inr []
      else case GetYourPlayer state of
             None \<Rightarrow> Inr []
           | Some player \<Rightarrow>
               let validMoves = GetValidMoves (Board state) (ID player)
               in if length validMoves = 0 then Inr []
                  else
                    let scoredMoves = scoreMoves factors validMoves state
                    in selectDiverseMoves scoredMoves count)"

subsection \<open>Neutral placement\<close>

definition blocksPathToBase :: "Position \<Rightarrow> GameState \<Rightarrow> int \<Rightarrow> int \<Rightarrow> bool" where
  "blocksPathToBase pos state opponentID ourID =
     (let ourBase = (case Board.BasePos (Board state) ourID of
                       None \<Rightarrow> \<lparr>Row = 0, Col = 0\<rparr> | Some p \<Rightarrow> p)
      in list_ex (\<lambda>neighbor. Row neighbor = Row pos \<and> Col neighbor = Col pos)
           (GetNeighbors (Board state) ourBase))"

definition createsChokepoint :: "Position \<Rightarrow> GameState \<Rightarrow> bool" where
  "createsChokepoint pos state =
     (let ourCells = length (filter (IsEdgePosition (Board state))
                               (GetNeighbors (Board state) pos))
      in ourCells \<ge> 2)"

definition evaluateNeutralPosition :: "Position \<Rightarrow> GameState \<Rightarrow> int \<Rightarrow> real" where
  "evaluateNeutralPosition pos state playerID =
     (let score = 0;
          score = fold (\<lambda>opp score. if blocksPathToBase pos state (ID opp) playerID
                                     then score + 20.0 else score)
                    (GetOpponents state) score;
          score = (if createsChokepoint pos state then score + 15.0 else score);
          score = (if IsCornerPosition (Board state) pos then score + 10.0 else score);
          emptyNeighbors = length (GetEmptyNeighbors (Board state) pos);
          score = score + real emptyNeighbors * 3.0;
          score = (case GetYourPlayer state of
                     None \<Rightarrow> score
                   | Some player \<Rightarrow>
                       if IsAdjacent pos (Player.BasePos player) then score - 10.0 else score)
      in score)"

definition Heuristic_DecideNeutrals :: "GameState \<Rightarrow> Position list" where
  "Heuristic_DecideNeutrals state =
     (case GetYourPlayer state of
        None \<Rightarrow> []
      | Some player \<Rightarrow>
          if HasUsedNeutrals player then []
          else
            let validPositions = GetNeutralPositions (Board state) (ID player)
            in if length validPositions < 2 then []
               else
                 let scored = map (\<lambda>pos. (pos, evaluateNeutralPosition pos state (ID player)))
                                validPositions;
                     sorted = sort_desc scored
                 in map fst (take 2 sorted))"

section \<open>Search strategy (internal/strategy/mcts.go)\<close>

text \<open>
  \<^verbatim>\<open>runMCTS\<close> runs playouts until the deadline or the iteration cap and drops their
  scores (\<^verbatim>\<open>_ = bestScore\<close>); the playouts work on clones. What the loop leaves behind
  is the state of the random generator, and it need not return: a playout skips a player
  without moves and does not count the step. The environment of a call is therefore
  \<open>None\<close> when the loop does not return and \<open>Some rnd\<close> when it does, \<open>rnd k\<close> being the
  \<open>k\<close>-th value that \<^verbatim>\<open>rand.Float64()\<close> returns afterwards.
\<close>

definition mcts_evaluateMove :: "real \<Rightarrow> Move \<Rightarrow> real" where
  "mcts_evaluateMove r move =
     (let score = 0;
          score = (if Type move = MoveAttack then score + 15.0 else score + 10.0);
          score = score + r * 2.0
      in score)"

definition selectBestMoves :: "(nat \<Rightarrow> real) \<Rightarrow> Move list \<Rightarrow> int \<Rightarrow> error + Move list" where
  "selectBestMoves rnd moves count =
     (if int (length moves) \<le> count then Inr moves
      else
        let scored = map (\<lambda>i. (moves ! i,
                               foldl (\<lambda>sumScore j. sumScore + mcts_evaluateMove (rnd (10 * i + j)) (moves ! i))
                                     0 [0..<10] / 10.0))
                       [0..<length moves];
            sorted = sort_desc scored
        in if count < 0 then Inl NegativeLen
           else Inr (map fst (take (nat count) sorted)))"

definition runMCTS ::
  "(nat \<Rightarrow> real) option \<Rightarrow> GameState \<Rightarrow> Move list \<Rightarrow> int \<Rightarrow> (error + Move list) option" where
  "runMCTS env state validMoves count =
     (if int (length validMoves) \<le> count then Some (Inr validMoves)
      else case env of
             None \<Rightarrow> None
           | Some rnd \<Rightarrow> Some (selectBestMoves rnd validMoves count))"

definition MCTS_DecideMoves ::
  "(nat \<Rightarrow> real) option \<Rightarrow> GameState \<Rightarrow> int \<Rightarrow> (error + Move list) option" where
  "MCTS_DecideMoves env state count =
     (if \<not> IsMyTurn state then Some (Inr [])
      else case GetYourPlayer state of
             None \<Rightarrow> Some (Inr [])
           | Some player \<Rightarrow>
               let validMoves = GetValidMoves (Board state) (ID player)
               in if length validMoves = 0 then Some (Inr [])
                  else runMCTS env state validMoves count)"

definition MCTS_DecideNeutrals :: "GameState \<Rightarrow> Position list" where
  "MCTS_DecideNeutrals state = Heuristic_DecideNeutrals state"

section \<open>Example positions\<close>

text \<open>
  A 5x5 board on which player 1 owns the centre, its base, and player 2 owns the eight
  cells around it with the normal flag; both players are in the roster as
  \<^verbatim>\<open>NewPlayer\<close> builds them, and it is the turn of player 1, the bot.
\<close>

definition ring_board :: Board where
  "ring_board = \<lparr>Size = 5,
     Cells = [[0,0,0,0,0],[0,2,2,2,0],[0,2,1,2,0],[0,2,2,2,0],[0,0,0,0,0]],
     BasePos = [1 \<mapsto> \<lparr>Row = 2, Col = 2\<rparr>, 2 \<mapsto> \<lparr>Row = 1, Col = 1\<rparr>]\<rparr>"

definition ring_state :: GameState where
  "ring_state = \<lparr>Board = ring_board,
     Players = [NewPlayer 1 ''bot'' 1 \<lparr>Row = 2, Col = 2\<rparr>, NewPlayer 2 ''opp'' 2 \<lparr>Row = 1, Col = 1\<rparr>],
     CurrentPlayer = 1, YourPlayerID = 1\<rparr>"

text \<open>
  The same ring with the fortified flag (\<^verbatim>\<open>0x22\<close>); a board on which two cells of
  player 1 share empty neighbours; a board on which player 2 has lost its base at (4,4)
  to player 1 and keeps two cells away from it; a board on which player 2 has lost its
  base and keeps the cell next to it, with the state in which it is the turn of player
  2; and the empty board before the first placement.
\<close>

definition fort_ring_board :: Board where
  "fort_ring_board = \<lparr>Size = 5,
     Cells = [[0,0,0,0,0],[0,34,34,34,0],[0,34,1,34,0],[0,34,34,34,0],[0,0,0,0,0]],
     BasePos = [1 \<mapsto> \<lparr>Row = 2, Col = 2\<rparr>, 2 \<mapsto> \<lparr>Row = 1, Col = 1\<rparr>]\<rparr>"

definition fort_ring_state :: GameState where
  "fort_ring_state = \<lparr>Board = fort_ring_board,
     Players = [NewPlayer 1 ''bot'' 1 \<lparr>Row = 2, Col = 2\<rparr>, NewPlayer 2 ''opp'' 2 \<lparr>Row = 1, Col = 1\<rparr>],
     CurrentPlayer = 1, YourPlayerID = 1\<rparr>"


definition base_lost_board :: Board where
  "base_lost_board = \<lparr>Size = 5,
     Cells = [[1,0,0,0,0],[0,0,0,0,0],[0,0,0,0,0],[0,0,2,0,0],[0,0,2,0,1]],
     BasePos = [1 \<mapsto> \<lparr>Row = 0, Col = 0\<rparr>, 2 \<mapsto> \<lparr>Row = 4, Col = 4\<rparr>]\<rparr>"

definition recapture_board :: Board where
  "recapture_board = \<lparr>Size = 5,
     Cells = [[1,0,0,0,0],[0,0,0,0,0],[0,0,0,0,0],[0,0,0,0,0],[0,0,0,2,1]],
     BasePos = [1 \<mapsto> \<lparr>Row = 0, Col = 0\<rparr>, 2 \<mapsto> \<lparr>Row = 4, Col = 4\<rparr>]\<rparr>"

definition recapture_state :: GameState where
  "recapture_state = \<lparr>Board = recapture_board,
     Players = [NewPlayer 1 ''bot'' 1 \<lparr>Row = 0, Col = 0\<rparr>, NewPlayer 2 ''opp'' 2 \<lparr>Row = 4, Col = 4\<rparr>],
     CurrentPlayer = 2, YourPlayerID = 1\<rparr>"

definition first_state :: GameState where
  "first_state = \<lparr>Board = NewBoardFromData (Board.Cells (NewBoard 5)) [1 \<mapsto> \<lparr>Row = 0, Col = 0\<rparr>],
     Players = [NewPlayer 1 ''bot'' 1 \<lparr>Row = 0, Col = 0\<rparr>],
     CurrentPlayer = 1, YourPlayerID = 1\<rparr>"

section \<open>Out-of-bounds queries\<close>

lemma grid_read_wf:
  assumes "wf_board b" and "IsValid b pos"
  shows "grid_read (Board.Cells b) (Row pos) (Col pos)
         = Inr (Board.Cells b ! nat (Row pos) ! nat (Col pos))"
proof -
  from assms have r: "0 \<le> Row pos" "Row pos < int (length (Board.Cells b))"
    and c: "0 \<le> Col pos" "Col pos < Size b"
    by (simp_all add: wf_board_def IsValid_def)
  from r have "nat (Row pos) < length (Board.Cells b)" by linarith
  then have "Board.Cells b ! nat (Row pos) \<in> set (Board.Cells b)" by simp
  with assms(1) have "int (length (Board.Cells b ! nat (Row pos))) = Size b"
    by (simp add: wf_board_def list_all_iff)
  with r c show ?thesis by (simp add: grid_read_def)
qed

lemma checked_queries_agree:
  assumes "wf_board b"
  shows "GetCell_checked b pos = Inr (GetCell b pos)"
    and "IsEmpty_checked b pos = Inr (IsEmpty b pos)"
    and "IsOwnedBy_checked b pos playerID = Inr (IsOwnedBy b pos playerID)"
    and "IsNeutral_checked b pos = Inr (IsNeutral b pos)"
    and "IsOpponent_checked b pos playerID = Inr (IsOpponent b pos playerID)"
proof -
  show g: "GetCell_checked b pos = Inr (GetCell b pos)"
    using grid_read_wf [OF assms] by (simp add: GetCell_checked_def GetCell_def)
  show "IsEmpty_checked b pos = Inr (IsEmpty b pos)"
    by (simp add: IsEmpty_checked_def IsEmpty_def g)
  show "IsOwnedBy_checked b pos playerID = Inr (IsOwnedBy b pos playerID)"
    by (simp add: IsOwnedBy_checked_def IsOwnedBy_def g Let_def)
  show "IsNeutral_checked b pos = Inr (IsNeutral b pos)"
    by (simp add: IsNeutral_checked_def IsNeutral_def g)
  show "IsOpponent_checked b pos playerID = Inr (IsOpponent b pos playerID)"
    by (simp add: IsOpponent_checked_def IsOpponent_def g Let_def)
qed

text \<open>
  C7. On every board, also one whose rows are too short, and at every position outside
  the bounds, the queries return their defaults and do not read the grid: \<open>GetCell\<close>
  gives the empty cell, \<open>IsEmpty\<close> is true, the ownership, opponent and neutral tests are
  false, and none of the checked queries ends in the index panic.
\<close>

theorem C7_out_of_bounds_defaults:
  assumes "\<not> IsValid b pos"
  shows "GetCell_checked b pos = Inr CellEmpty \<and> IsEmpty_checked b pos = Inr True
       \<and> IsOwnedBy_checked b pos playerID = Inr False
       \<and> IsNeutral_checked b pos = Inr False
       \<and> IsOpponent_checked b pos playerID = Inr False
       \<and> GetCell b pos = CellEmpty \<and> IsEmpty b pos
       \<and> \<not> IsOwnedBy b pos playerID \<and> \<not> IsNeutral b pos \<and> \<not> IsOpponent b pos playerID"
  using assms
  by (simp add: GetCell_checked_def IsEmpty_checked_def IsOwnedBy_checked_def
      IsNeutral_checked_def IsOpponent_checked_def GetCell_def IsEmpty_def IsOwnedBy_def
      IsNeutral_def IsOpponent_def CellEmpty_def CellNeutral_def)

theorem C7_out_of_bounds_defaults_witness:
  "\<not> IsValid \<lparr>Size = 2, Cells = [[1], []], BasePos = Map.empty\<rparr> \<lparr>Row = 0, Col = 5\<rparr>
   \<and> GetCell_checked \<lparr>Size = 2, Cells = [[1], []], BasePos = Map.empty\<rparr> \<lparr>Row = 0, Col = 5\<rparr>
       = Inr CellEmpty
   \<and> IsOpponent_checked \<lparr>Size = 2, Cells = [[1], []], BasePos = Map.empty\<rparr>
       \<lparr>Row = 0, Col = 5\<rparr> 2 = Inr False"
proof -
  have h: "\<not> IsValid \<lparr>Size = 2, Cells = [[1], []], BasePos = Map.empty\<rparr> \<lparr>Row = 0, Col = 5\<rparr>"
    by (simp add: IsValid_def)
  show ?thesis
    using h C7_out_of_bounds_defaults [OF h, of 2] by simp
qed

section \<open>Cloning and the lookup of players\<close>

lemma Board_Clone_wf:
  assumes "wf_board b"
  shows "Board_Clone b = b"
proof -
  let ?n = "nat (Size b)"
  from assms have len: "length (Board.Cells b) = ?n"
    and rows: "\<And>i. i < ?n \<Longrightarrow> length (Board.Cells b ! i) = ?n"
  proof -
    from assms show l: "length (Board.Cells b) = ?n" by (simp add: wf_board_def) linarith
    fix i assume "i < ?n"
    with l have "Board.Cells b ! i \<in> set (Board.Cells b)" by simp
    with assms have "int (length (Board.Cells b ! i)) = Size b"
      by (simp add: wf_board_def list_all_iff)
    then show "length (Board.Cells b ! i) = ?n" by linarith
  qed
  have "map (\<lambda>i. take ?n (Board.Cells b ! i) @ replicate (?n - length (Board.Cells b ! i)) 0)
          [0..<?n] = map (\<lambda>i. Board.Cells b ! i) [0..<?n]"
    by (rule map_cong) (simp_all add: rows)
  also have "\<dots> = Board.Cells b"
    using map_nth [of "Board.Cells b"] by (simp add: len)
  finally show ?thesis by (simp add: Board_Clone_def)
qed

lemma Player_Clone_id: "Player_Clone p = p"
  by (simp add: Player_Clone_def)

lemma player_index_None: "player_index ps playerID = None \<longleftrightarrow> (\<forall>p \<in> set ps. ID p \<noteq> playerID)"
  by (induction ps) (auto split: option.splits)

lemma find_player_None: "find (\<lambda>p. ID p = playerID) ps = None \<longleftrightarrow> (\<forall>p \<in> set ps. ID p \<noteq> playerID)"
  by (auto simp: find_None_iff)

lemma map_Player_Clone: "map Player_Clone ps = ps"
  by (induction ps) (simp_all add: Player_Clone_id)

lemma Clone_wf: "wf_board (Board s) \<Longrightarrow> Clone s = s"
  by (simp add: Clone_def Board_Clone_wf map_Player_Clone)

lemma GetYourPlayer_None: "GetYourPlayer s = None \<longleftrightarrow> (\<forall>p \<in> set (Players s). ID p \<noteq> YourPlayerID s)"
  by (simp add: GetYourPlayer_def find_player_None)

lemma GetYourPlayer_ID: "GetYourPlayer s = Some player \<Longrightarrow> ID player = YourPlayerID s"
  by (auto simp: GetYourPlayer_def find_Some_iff)

lemma wf_ring_board: "wf_board ring_board"
  by (simp add: wf_board_def ring_board_def)

section \<open>A move without a current player\<close>

text \<open>
  C10. When no player of the roster has the id \<open>CurrentPlayer\<close>, \<^verbatim>\<open>ApplyMove\<close> returns
  the clone of the state: on a dense grid the result equals the input state, so no cell
  and no player record changes and the turn does not advance.
\<close>

theorem C10_apply_without_current_player:
  assumes "wf_board (Board s)" and "\<forall>p \<in> set (Players s). ID p \<noteq> CurrentPlayer s"
  shows "ApplyMove s move = s"
proof -
  from assms(2) have "player_index (Players s) (CurrentPlayer s) = None"
    by (simp add: player_index_None)
  with assms(1) show ?thesis
    by (simp add: ApplyMove_def Clone_wf)
qed

theorem C10_apply_without_current_player_witness:
  "wf_board (Board (ring_state\<lparr>CurrentPlayer := 7\<rparr>))
   \<and> list_all (\<lambda>p. ID p \<noteq> CurrentPlayer (ring_state\<lparr>CurrentPlayer := 7\<rparr>))
         (Players (ring_state\<lparr>CurrentPlayer := 7\<rparr>))
   \<and> ApplyMove (ring_state\<lparr>CurrentPlayer := 7\<rparr>)
        \<lparr>Position = \<lparr>Row = 1, Col = 1\<rparr>, Type = MoveAttack, FromCell = \<lparr>Row = 2, Col = 2\<rparr>\<rparr>
      = ring_state\<lparr>CurrentPlayer := 7\<rparr>"
proof -
  have w: "wf_board (Board (ring_state\<lparr>CurrentPlayer := 7\<rparr>))"
    by (simp add: ring_state_def wf_ring_board)
  have n: "\<forall>p \<in> set (Players (ring_state\<lparr>CurrentPlayer := 7\<rparr>)).
         ID p \<noteq> CurrentPlayer (ring_state\<lparr>CurrentPlayer := 7\<rparr>)"
    by (simp add: ring_state_def NewPlayer_def)
  from w n C10_apply_without_current_player [OF w n] show ?thesis
    by (simp only: list_all_iff simp_thms)
qed

section \<open>Decisions that are empty\<close>

text \<open>
  C8. On a board with \<open>Size\<close> rows of \<open>Size\<close> cells, \<^verbatim>\<open>DecideMoves\<close> of both strategies
  returns the empty list, and no error, when it is not the bot's turn, when the bot is
  not in the roster, or when the bot has no legal move; \<^verbatim>\<open>DecideNeutrals\<close> of both
  strategies returns the empty list when the bot is not in the roster, when it has used
  its neutrals, or when fewer than two of its cells are eligible.
\<close>

theorem C8_noop_conditions:
  assumes "wf_board (Board s)"
  shows "(\<not> IsMyTurn s \<or> (\<forall>p \<in> set (Players s). ID p \<noteq> YourPlayerID s)
      \<or> GetValidMoves (Board s) (YourPlayerID s) = []
    \<longrightarrow> Heuristic_DecideMoves factors s count = Inr []
        \<and> MCTS_DecideMoves env s count = Some (Inr []))
 \<and> ((\<forall>p \<in> set (Players s). ID p \<noteq> YourPlayerID s)
      \<or> (\<exists>player. GetYourPlayer s = Some player \<and> HasUsedNeutrals player)
      \<or> length (GetNeutralPositions (Board s) (YourPlayerID s)) < 2
    \<longrightarrow> Heuristic_DecideNeutrals s = [] \<and> MCTS_DecideNeutrals s = [])"
proof (intro conjI impI)
  assume a: "\<not> IsMyTurn s \<or> (\<forall>p \<in> set (Players s). ID p \<noteq> YourPlayerID s)
      \<or> GetValidMoves (Board s) (YourPlayerID s) = []"
  show "Heuristic_DecideMoves factors s count = Inr []"
  proof (cases "GetYourPlayer s")
    case None
    then show ?thesis by (simp add: Heuristic_DecideMoves_def)
  next
    case (Some player)
    with a have "\<not> IsMyTurn s \<or> GetValidMoves (Board s) (ID player) = []"
      by (auto simp: GetYourPlayer_ID dest: iffD2 [OF GetYourPlayer_None])
    with Some show ?thesis by (auto simp: Heuristic_DecideMoves_def)
  qed
  show "MCTS_DecideMoves env s count = Some (Inr [])"
  proof (cases "GetYourPlayer s")
    case None
    then show ?thesis by (simp add: MCTS_DecideMoves_def)
  next
    case (Some player)
    with a have "\<not> IsMyTurn s \<or> GetValidMoves (Board s) (ID player) = []"
      by (auto simp: GetYourPlayer_ID dest: iffD2 [OF GetYourPlayer_None])
    with Some show ?thesis by (auto simp: MCTS_DecideMoves_def)
  qed
next
  assume a: "(\<forall>p \<in> set (Players s). ID p \<noteq> YourPlayerID s)
      \<or> (\<exists>player. GetYourPlayer s = Some player \<and> HasUsedNeutrals player)
      \<or> length (GetNeutralPositions (Board s) (YourPlayerID s)) < 2"
  show h: "Heuristic_DecideNeutrals s = []"
  proof (cases "GetYourPlayer s")
    case None
    then show ?thesis by (simp add: Heuristic_DecideNeutrals_def)
  next
    case (Some player)
    with a have "HasUsedNeutrals player
        \<or> length (GetNeutralPositions (Board s) (ID player)) < 2"
      by (auto simp: GetYourPlayer_ID dest: iffD2 [OF GetYourPlayer_None])
    with Some show ?thesis by (auto simp: Heuristic_DecideNeutrals_def)
  qed
  then show "MCTS_DecideNeutrals s = []" by (simp add: MCTS_DecideNeutrals_def)
qed

theorem C8_noop_conditions_witness:
  "wf_board (Board (ring_state\<lparr>CurrentPlayer := 2\<rparr>))
   \<and> wf_board (Board (ring_state\<lparr>YourPlayerID := 3\<rparr>))
   \<and> wf_board (Board ring_state)
   \<and> \<not> IsMyTurn (ring_state\<lparr>CurrentPlayer := 2\<rparr>)
   \<and> Heuristic_DecideMoves DefaultFactors (ring_state\<lparr>CurrentPlayer := 2\<rparr>) 3 = Inr []
   \<and> MCTS_DecideMoves None (ring_state\<lparr>CurrentPlayer := 2\<rparr>) 3 = Some (Inr [])
   \<and> list_all (\<lambda>p. ID p \<noteq> YourPlayerID (ring_state\<lparr>YourPlayerID := 3\<rparr>))
         (Players (ring_state\<lparr>YourPlayerID := 3\<rparr>))
   \<and> Heuristic_DecideNeutrals (ring_state\<lparr>YourPlayerID := 3\<rparr>) = []
   \<and> MCTS_DecideNeutrals (ring_state\<lparr>YourPlayerID := 3\<rparr>) = []
   \<and> length (GetNeutralPositions (Board ring_state) (YourPlayerID ring_state)) < 2
   \<and> Heuristic_DecideNeutrals ring_state = []"
proof -
  have a: "\<not> IsMyTurn (ring_state\<lparr>CurrentPlayer := 2\<rparr>)"
    by (simp add: IsMyTurn_def ring_state_def)
  have b: "\<forall>p \<in> set (Players (ring_state\<lparr>YourPlayerID := 3\<rparr>)). ID p \<noteq> YourPlayerID (ring_state\<lparr>YourPlayerID := 3\<rparr>)"
    by (simp add: ring_state_def NewPlayer_def)
  have c: "length (GetNeutralPositions (Board ring_state) (YourPlayerID ring_state)) < 2"
    by code_simp
  have w1: "wf_board (Board (ring_state\<lparr>CurrentPlayer := 2\<rparr>))"
    and w2: "wf_board (Board (ring_state\<lparr>YourPlayerID := 3\<rparr>))"
    and w3: "wf_board (Board ring_state)"
    by (simp_all add: ring_state_def wf_ring_board)
  from a b c w1 w2 w3
    C8_noop_conditions [OF w1, of DefaultFactors 3 None]
    C8_noop_conditions [OF w2, of DefaultFactors 3 None]
    C8_noop_conditions [OF w3, of DefaultFactors 3 None]
  show ?thesis unfolding list_all_iff by blast
qed

section \<open>The sort and the selections keep the candidates\<close>

lemma fold_choice_mem:
  "fold (\<lambda>j maxIdx. if P j maxIdx then j else maxIdx) js i \<in> insert i (set js)"
proof (induction js arbitrary: i)
  case Nil
  show ?case by simp
next
  case (Cons j js)
  show ?case using Cons.IH [of j] Cons.IH [of i] by auto
qed

lemma max_index_less:
  assumes "i < length scored"
  shows "max_index scored i < length scored"
proof -
  have "max_index scored i \<in> insert i (set [i + 1 ..< length scored])"
    unfolding max_index_def by (rule fold_choice_mem)
  with assms show ?thesis by auto
qed

lemma fold_swap_set:
  assumes "\<forall>i \<in> set js. i < length xs"
  shows "set (fold (\<lambda>i scored. let maxIdx = max_index scored i
                                 in scored[i := scored ! maxIdx, maxIdx := scored ! i]) js xs) = set xs
       \<and> length (fold (\<lambda>i scored. let maxIdx = max_index scored i
                                 in scored[i := scored ! maxIdx, maxIdx := scored ! i]) js xs) = length xs"
  using assms
proof (induction js arbitrary: xs)
  case Nil
  show ?case by simp
next
  case (Cons j js)
  let ?ys = "xs[j := xs ! max_index xs j, max_index xs j := xs ! j]"
  from Cons.prems have j: "j < length xs" by simp
  then have m: "max_index xs j < length xs" by (rule max_index_less)
  have s: "set ?ys = set xs" using j m by (rule set_swap)
  have l: "length ?ys = length xs" by simp
  from Cons.prems l have "\<forall>i \<in> set js. i < length ?ys" by simp
  from Cons.IH [OF this] s l show ?case by (simp add: Let_def)
qed

lemma set_sort_desc: "set (sort_desc scored) = set scored"
  unfolding sort_desc_def by (rule fold_swap_set [THEN conjunct1]) auto

lemma length_sort_desc: "length (sort_desc scored) = length scored"
  unfolding sort_desc_def by (rule fold_swap_set [THEN conjunct2]) auto

lemma diverse_loop_subset:
  "set (diverse_loop scored count selected selectedPositions) \<subseteq> set selected \<union> fst ` set scored"
  by (induction scored count selected selectedPositions rule: diverse_loop.induct) auto

lemma selectDiverseMoves_subset:
  assumes "selectDiverseMoves scored count = Inr ms"
  shows "set ms \<subseteq> fst ` set scored"
proof (cases "int (length scored) \<le> count")
  case True
  with assms show ?thesis by (auto simp: selectDiverseMoves_def)
next
  case False
  with assms have "ms = diverse_loop (sort_desc scored) count [] {}"
    by (auto simp: selectDiverseMoves_def Let_def split: if_splits)
  then show ?thesis
    using diverse_loop_subset [of "sort_desc scored" count "[]" "{}"]
    by (simp add: set_sort_desc)
qed

lemma scoreMoves_subset: "fst ` set (scoreMoves factors moves state) \<subseteq> set moves"
  by (auto simp: scoreMoves_def split: option.splits)

lemma selectBestMoves_subset:
  assumes "selectBestMoves rnd moves count = Inr ms"
  shows "set ms \<subseteq> set moves"
proof (cases "int (length moves) \<le> count")
  case True
  with assms show ?thesis by (auto simp: selectBestMoves_def)
next
  case False
  define scored where "scored = map (\<lambda>i. (moves ! i,
       foldl (\<lambda>sumScore j. sumScore + mcts_evaluateMove (rnd (10 * i + j)) (moves ! i))
             0 [0..<10] / 10.0)) [0..<length moves]"
  have f: "fst ` set scored \<subseteq> set moves" by (auto simp: scored_def)
  from False assms have "ms = map fst (take (nat count) (sort_desc scored))"
    by (auto simp: selectBestMoves_def Let_def scored_def split: if_splits)
  then have "set ms \<subseteq> fst ` set (sort_desc scored)"
    by (auto dest: in_set_takeD)
  with f show ?thesis by (simp add: set_sort_desc)
qed

lemma Heuristic_DecideMoves_valid:
  assumes "Heuristic_DecideMoves factors s count = Inr ms" and "m \<in> set ms"
  shows "m \<in> set (GetValidMoves (Board s) (YourPlayerID s))"
proof -
  from assms obtain player where p: "GetYourPlayer s = Some player"
    and sel: "selectDiverseMoves (scoreMoves factors (GetValidMoves (Board s) (ID player)) s) count = Inr ms"
    by (auto simp: Heuristic_DecideMoves_def Let_def split: if_splits option.splits)
  from p have "ID player = YourPlayerID s"
    by (auto simp: GetYourPlayer_def find_Some_iff)
  with selectDiverseMoves_subset [OF sel] scoreMoves_subset assms(2) show ?thesis by fastforce
qed

lemma MCTS_DecideMoves_valid:
  assumes "MCTS_DecideMoves env s count = Some (Inr ms)" and "m \<in> set ms"
  shows "m \<in> set (GetValidMoves (Board s) (YourPlayerID s))"
proof -
  from assms obtain player where p: "GetYourPlayer s = Some player"
    and run: "runMCTS env s (GetValidMoves (Board s) (ID player)) count = Some (Inr ms)"
    by (auto simp: MCTS_DecideMoves_def Let_def split: if_splits option.splits)
  from p have i: "ID player = YourPlayerID s"
    by (auto simp: GetYourPlayer_def find_Some_iff)
  from run have "set ms \<subseteq> set (GetValidMoves (Board s) (ID player))"
    by (auto simp: runMCTS_def split: if_splits option.splits dest: selectBestMoves_subset)
  with i assms(2) show ?thesis by auto
qed

section \<open>Reachable cells\<close>

text \<open>
  \<open>owned_step\<close> is one step of the search: from a cell to a neighbour that the player
  owns. \<open>search_start\<close> is the cell from which \<^verbatim>\<open>GetReachableCells\<close> starts: the base
  when the player owns it, otherwise the first cell of \<^verbatim>\<open>GetPlayerCells\<close>, and none when
  no base is registered or no cell is left.
\<close>

definition owned_step :: "Board \<Rightarrow> int \<Rightarrow> (Position \<times> Position) set" where
  "owned_step b playerID = {(p, n). n \<in> set (GetNeighbors b p) \<and> IsOwnedBy b n playerID}"

definition search_start :: "Board \<Rightarrow> int \<Rightarrow> Position option" where
  "search_start b playerID =
     (case Board.BasePos b playerID of
        None \<Rightarrow> None
      | Some basePos \<Rightarrow>
          if IsOwnedBy b basePos playerID then Some basePos
          else (case GetPlayerCells b playerID of [] \<Rightarrow> None | cell # cells \<Rightarrow> Some cell))"

lemma GetReachableCells_start:
  "GetReachableCells b playerID =
     (case search_start b playerID of
        None \<Rightarrow> []
      | Some start \<Rightarrow> reachable_loop b playerID [start] {} [])"
  by (auto simp: GetReachableCells_def search_start_def Let_def nth_Cons'
      split: option.splits list.splits)

lemma reachable_loop_invariant:
  assumes "\<forall>p \<in> set queue \<union> set reachable. P p"
    and "\<forall>p n. P p \<longrightarrow> n \<in> set (GetNeighbors b p) \<longrightarrow> IsOwnedBy b n playerID \<longrightarrow> P n"
  shows "\<forall>p \<in> set (reachable_loop b playerID queue visited reachable). P p"
  using assms
proof (induction b playerID queue visited reachable rule: reachable_loop.induct)
  case (1 b playerID queue visited reachable)
  note step = "1.prems"(2)
  show ?case
  proof (cases queue)
    case Nil
    with "1.prems"(1) show ?thesis by (subst reachable_loop.simps) simp
  next
    case (Cons current rest)
    show ?thesis
    proof (cases "current \<in> visited")
      case True
      from "1.prems"(1) Cons have "\<forall>p \<in> set rest \<union> set reachable. P p" by simp
      from "1.IH"(1) [OF Cons True this step] Cons True show ?thesis
        by (subst reachable_loop.simps) simp
    next
      case False
      let ?v = "insert current visited"
      let ?r = "reachable @ [current]"
      let ?q = "rest @ filter (\<lambda>neighbor. neighbor \<notin> ?v \<and> IsOwnedBy b neighbor playerID)
                         (GetNeighbors b current)"
      from "1.prems"(1) Cons have c: "P current" by simp
      have "\<forall>p \<in> set ?q \<union> set ?r. P p"
        using "1.prems"(1) Cons c step by auto
      from "1.IH"(2) [OF Cons False refl refl refl this step] Cons False
      show ?thesis by (subst reachable_loop.simps) (simp add: Let_def)
    qed
  qed
qed



lemma Player_CellEmpty: "Player CellEmpty = 0"
  by (simp add: Player_def CellEmpty_def PlayerMask_def)

lemma Player_CellNeutral: "Player CellNeutral = 5"
  by (simp add: Player_def CellNeutral_def PlayerMask_def)

lemma all_positions_valid: "p \<in> set (all_positions b) \<Longrightarrow> IsValid b p"
  by (auto simp: all_positions_def IsValid_def)

lemma GetPlayerCells_owned:
  assumes "playerID \<noteq> 0" and "playerID \<noteq> 5" and "p \<in> set (GetPlayerCells b playerID)"
  shows "IsOwnedBy b p playerID"
proof -
  from assms(3) have v: "IsValid b p"
    and pl: "Player (Board.Cells b ! nat (Row p) ! nat (Col p)) = playerID"
    by (auto simp: GetPlayerCells_def dest: all_positions_valid)
  from v have g: "GetCell b p = Board.Cells b ! nat (Row p) ! nat (Col p)"
    by (simp add: GetCell_def)
  from pl g assms(1,2) show ?thesis
    by (auto simp: IsOwnedBy_def Let_def Player_CellEmpty Player_CellNeutral)
qed

lemma search_start_owned:
  assumes "playerID \<noteq> 0" and "playerID \<noteq> 5" and "search_start b playerID = Some start"
  shows "IsOwnedBy b start playerID"
  using assms GetPlayerCells_owned [OF assms(1,2), of start b]
  by (auto simp: search_start_def split: option.splits if_splits list.splits)

lemma GetReachableCells_sound:
  assumes "search_start b playerID = Some start" and "p \<in> set (GetReachableCells b playerID)"
  shows "(start, p) \<in> (owned_step b playerID)\<^sup>*"
proof -
  have "\<forall>p \<in> set (reachable_loop b playerID [start] {} []). (start, p) \<in> (owned_step b playerID)\<^sup>*"
  proof (rule reachable_loop_invariant)
    show "\<forall>p \<in> set [start] \<union> set []. (start, p) \<in> (owned_step b playerID)\<^sup>*" by simp
  next
    show "\<forall>p n. (start, p) \<in> (owned_step b playerID)\<^sup>* \<longrightarrow> n \<in> set (GetNeighbors b p)
             \<longrightarrow> IsOwnedBy b n playerID \<longrightarrow> (start, n) \<in> (owned_step b playerID)\<^sup>*"
      by (auto simp: owned_step_def intro: rtrancl_into_rtrancl)
  qed
  with assms show ?thesis by (simp add: GetReachableCells_start)
qed

lemma owned_step_owned:
  assumes "(start, p) \<in> (owned_step b playerID)\<^sup>*" and "IsOwnedBy b start playerID"
  shows "IsOwnedBy b p playerID"
  using assms by (induction rule: rtrancl_induct) (auto simp: owned_step_def)

lemma GetReachableCells_nonempty_start:
  assumes "GetReachableCells b playerID \<noteq> []"
  shows "\<exists>start. search_start b playerID = Some start"
  using assms by (auto simp: GetReachableCells_start split: option.splits)

lemma GetValidMoves_first:
  assumes "GetReachableCells b playerID = []" and "m \<in> set (GetValidMoves b playerID)"
  shows "Type m = MoveGrow \<and> IsEmpty b (Position m) \<and> FromCell m = Position m
       \<and> IsValid b (Position m)"
  using assms
  by (auto simp: GetValidMoves_def first_moves_def dest: all_positions_valid)

lemma GetValidMoves_from:
  assumes "GetReachableCells b playerID \<noteq> []" and "m \<in> set (GetValidMoves b playerID)"
  shows "FromCell m \<in> set (GetReachableCells b playerID)
       \<and> Position m \<in> set (GetNeighbors b (FromCell m))
       \<and> \<not> IsOwnedBy b (Position m) playerID
       \<and> (Type m = MoveGrow \<and> IsEmpty b (Position m)
          \<or> Type m = MoveAttack \<and> IsOpponent b (Position m) playerID)"
  using assms
  by (auto simp: GetValidMoves_def Let_def moves_to_def split: if_splits)

lemma reachable_loop_mono:
  "set reachable \<subseteq> set (reachable_loop b playerID queue visited reachable)"
proof (induction b playerID queue visited reachable rule: reachable_loop.induct)
  case (1 b playerID queue visited reachable)
  show ?case
  proof (cases queue)
    case Nil
    then show ?thesis by (subst reachable_loop.simps) simp
  next
    case (Cons current rest)
    show ?thesis
    proof (cases "current \<in> visited")
      case True
      from "1.IH"(1) [OF Cons True] Cons True show ?thesis
        by (subst reachable_loop.simps) simp
    next
      case False
      from "1.IH"(2) [OF Cons False refl refl refl] Cons False show ?thesis
        by (subst reachable_loop.simps) (auto simp: Let_def)
    qed
  qed
qed

lemma start_reachable: "start \<in> set (reachable_loop b playerID [start] {} [])"
proof -
  have "set ([] @ [start]) \<subseteq> set (reachable_loop b playerID
          ([] @ filter (\<lambda>neighbor. neighbor \<notin> insert start {} \<and> IsOwnedBy b neighbor playerID)
                  (GetNeighbors b start)) (insert start {}) ([] @ [start]))"
    by (rule reachable_loop_mono)
  then show ?thesis by (subst reachable_loop.simps) (simp add: Let_def)
qed

lemma GetReachableCells_empty_iff:
  "GetReachableCells b playerID = [] \<longleftrightarrow> search_start b playerID = None"
proof (cases "search_start b playerID")
  case None
  then show ?thesis by (simp add: GetReachableCells_start)
next
  case (Some start)
  with start_reachable [of start b playerID] show ?thesis
    by (auto simp: GetReachableCells_start)
qed

section \<open>Legality of the decided moves\<close>

text \<open>
  C1, as the code has it. Every move that either strategy returns is a grow move into an
  empty cell or an attack move on an opponent cell that can be attacked. When the search
  has a start, the origin of the move is a cell of the acting player that is connected
  to the start through cells of that player, and the target is a neighbour of the
  origin; when it has none (first placement), the move is a grow move and its origin is
  the target itself. The ids 0
  and 5 are the codes of the empty and the neutral cell and are no player ids.
\<close>

theorem C1_decided_moves_legal:
  assumes "wf_board (Board s)"
    and "YourPlayerID s \<noteq> 0" and "YourPlayerID s \<noteq> 5"
    and "Heuristic_DecideMoves factors s count = Inr ms
         \<or> MCTS_DecideMoves env s count = Some (Inr ms)"
    and "m \<in> set ms"
  shows "(Type m = MoveGrow \<longrightarrow> IsEmpty (Board s) (Position m))
       \<and> (Type m = MoveAttack \<longrightarrow> IsOpponent (Board s) (Position m) (YourPlayerID s))
       \<and> (case search_start (Board s) (YourPlayerID s) of
            None \<Rightarrow> Type m = MoveGrow \<and> FromCell m = Position m
          | Some start \<Rightarrow>
              IsOwnedBy (Board s) (FromCell m) (YourPlayerID s)
              \<and> (start, FromCell m) \<in> (owned_step (Board s) (YourPlayerID s))\<^sup>*
              \<and> Position m \<in> set (GetNeighbors (Board s) (FromCell m)))"
proof -
  let ?b = "Board s" and ?id = "YourPlayerID s"
  from assms(4,5) have v: "m \<in> set (GetValidMoves ?b ?id)"
    by (auto dest: Heuristic_DecideMoves_valid MCTS_DecideMoves_valid)
  show ?thesis
  proof (cases "search_start ?b ?id")
    case None
    then have "GetReachableCells ?b ?id = []" by (simp add: GetReachableCells_empty_iff)
    from GetValidMoves_first [OF this v] None show ?thesis by simp
  next
    case (Some start)
    then have "GetReachableCells ?b ?id \<noteq> []" by (simp add: GetReachableCells_empty_iff)
    from GetValidMoves_from [OF this v]
    have f: "FromCell m \<in> set (GetReachableCells ?b ?id)"
      and n: "Position m \<in> set (GetNeighbors ?b (FromCell m))"
      and t: "Type m = MoveGrow \<and> IsEmpty ?b (Position m)
          \<or> Type m = MoveAttack \<and> IsOpponent ?b (Position m) ?id"
      by simp_all
    from GetReachableCells_sound [OF Some f]
    have r: "(start, FromCell m) \<in> (owned_step ?b ?id)\<^sup>*" .
    from search_start_owned [OF assms(2,3) Some]
    have "IsOwnedBy ?b start ?id" .
    with r have o: "IsOwnedBy ?b (FromCell m) ?id" by (rule owned_step_owned)
    from t have "(Type m = MoveGrow \<longrightarrow> IsEmpty ?b (Position m))
       \<and> (Type m = MoveAttack \<longrightarrow> IsOpponent ?b (Position m) ?id)" by auto
    with Some o r n show ?thesis by simp
  qed
qed

theorem C1_decided_moves_legal_witness:
  "wf_board (Board ring_state) \<and> YourPlayerID ring_state \<noteq> 0 \<and> YourPlayerID ring_state \<noteq> 5
   \<and> Heuristic_DecideMoves DefaultFactors ring_state 3
       = Inr [\<lparr>Position = \<lparr>Row = 1, Col = 1\<rparr>, Type = MoveAttack, FromCell = \<lparr>Row = 2, Col = 2\<rparr>\<rparr>]
   \<and> IsOpponent (Board ring_state) \<lparr>Row = 1, Col = 1\<rparr> (YourPlayerID ring_state)
   \<and> search_start (Board ring_state) (YourPlayerID ring_state) = Some \<lparr>Row = 2, Col = 2\<rparr>
   \<and> IsOwnedBy (Board ring_state) \<lparr>Row = 2, Col = 2\<rparr> (YourPlayerID ring_state)"
proof -
  let ?m = "\<lparr>Position = \<lparr>Row = 1, Col = 1\<rparr>, Type = MoveAttack, FromCell = \<lparr>Row = 2, Col = 2\<rparr>\<rparr>"
  have w: "wf_board (Board ring_state)" by (simp add: ring_state_def wf_ring_board)
  have i0: "YourPlayerID ring_state \<noteq> 0" and i5: "YourPlayerID ring_state \<noteq> 5"
    by (simp_all add: ring_state_def)
  have d: "Heuristic_DecideMoves DefaultFactors ring_state 3 = Inr [?m]" by code_simp
  then have d': "Heuristic_DecideMoves DefaultFactors ring_state 3 = Inr [?m]
      \<or> MCTS_DecideMoves None ring_state 3 = Some (Inr [?m])" ..
  have st: "search_start (Board ring_state) (YourPlayerID ring_state) = Some \<lparr>Row = 2, Col = 2\<rparr>"
    by code_simp
  have "?m \<in> set [?m]" by simp
  from C1_decided_moves_legal [OF w i0 i5 d' this] st
  have "IsOpponent (Board ring_state) \<lparr>Row = 1, Col = 1\<rparr> (YourPlayerID ring_state)
      \<and> IsOwnedBy (Board ring_state) \<lparr>Row = 2, Col = 2\<rparr> (YourPlayerID ring_state)"
    by simp
  with w i0 i5 d st show ?thesis by blast
qed

text \<open>
  The claim as the specification states it asks that the origin be owned by the acting
  player and reachable from its base. On the empty board the heuristic strategy returns
  three grow moves whose origin is the target, an empty cell.
\<close>

theorem C1_first_move_origin_counterexample:
  "Heuristic_DecideMoves DefaultFactors first_state 3 =
     Inr [\<lparr>Position = \<lparr>Row = 1, Col = 1\<rparr>, Type = MoveGrow, FromCell = \<lparr>Row = 1, Col = 1\<rparr>\<rparr>,
          \<lparr>Position = \<lparr>Row = 1, Col = 2\<rparr>, Type = MoveGrow, FromCell = \<lparr>Row = 1, Col = 2\<rparr>\<rparr>,
          \<lparr>Position = \<lparr>Row = 1, Col = 3\<rparr>, Type = MoveGrow, FromCell = \<lparr>Row = 1, Col = 3\<rparr>\<rparr>]
   \<and> \<not> IsOwnedBy (Board first_state) \<lparr>Row = 1, Col = 1\<rparr> (YourPlayerID first_state)"
  by code_simp

section \<open>The surrounded base\<close>

lemma no_moves_no_decision:
  assumes "GetValidMoves (Board s) (YourPlayerID s) = []"
  shows "Heuristic_DecideMoves factors s count = Inr []
       \<and> MCTS_DecideMoves env s count = Some (Inr [])"
proof (cases "GetYourPlayer s")
  case None
  then show ?thesis by (simp add: Heuristic_DecideMoves_def MCTS_DecideMoves_def)
next
  case (Some player)
  with assms GetYourPlayer_ID [OF Some] show ?thesis
    by (simp add: Heuristic_DecideMoves_def MCTS_DecideMoves_def)
qed

lemma walled_in_reachable:
  assumes "Board.BasePos b playerID = Some base" and "IsOwnedBy b base playerID"
    and "\<forall>n \<in> set (GetNeighbors b base). \<not> IsOwnedBy b n playerID"
  shows "GetReachableCells b playerID = [base]"
proof -
  from assms(1,2) have "search_start b playerID = Some base"
    by (simp add: search_start_def)
  moreover from assms(3)
  have "filter (\<lambda>neighbor. neighbor \<notin> insert base {} \<and> IsOwnedBy b neighbor playerID)
          (GetNeighbors b base) = []"
    by (auto simp: filter_empty_conv)
  then have "reachable_loop b playerID [base] {} [] = reachable_loop b playerID [] {base} [base]"
    by (subst reachable_loop.simps) (simp add: Let_def)
  moreover have "reachable_loop b playerID [] {base} [base] = [base]"
    by (subst reachable_loop.simps) simp
  ultimately show ?thesis by (simp add: GetReachableCells_start)
qed

text \<open>
  C4, as the code has it. When the acting player owns its base and every neighbour of
  the base is occupied by another owner with a cell that cannot be attacked (flag base,
  fortified or killed), both strategies return the empty list.
\<close>

theorem C4_walled_in_by_unattackable_ring:
  assumes "wf_board (Board s)"
    and "Board.BasePos (Board s) (YourPlayerID s) = Some base"
    and "IsOwnedBy (Board s) base (YourPlayerID s)"
    and "\<forall>n \<in> set (GetNeighbors (Board s) base).
           GetCell (Board s) n \<noteq> CellEmpty
           \<and> Player (GetCell (Board s) n) \<noteq> YourPlayerID s
           \<and> \<not> CanBeAttacked (GetCell (Board s) n)"
  shows "Heuristic_DecideMoves factors s count = Inr []
       \<and> MCTS_DecideMoves env s count = Some (Inr [])"
proof -
  let ?b = "Board s" and ?id = "YourPlayerID s"
  from assms(4) have no: "\<forall>n \<in> set (GetNeighbors ?b base). \<not> IsOwnedBy ?b n ?id"
    by (simp add: IsOwnedBy_def Let_def)
  from walled_in_reachable [OF assms(2,3) no]
  have r: "GetReachableCells ?b ?id = [base]" .
  have "\<forall>n \<in> set (GetNeighbors ?b base). moves_to ?b ?id base n = []"
    using assms(4) by (simp add: moves_to_def IsEmpty_def IsOpponent_def Let_def)
  then have "concat (map (moves_to ?b ?id base) (GetNeighbors ?b base)) = []"
    by simp
  with r have "GetValidMoves ?b ?id = []" by (simp add: GetValidMoves_def)
  then show ?thesis by (rule no_moves_no_decision)
qed

theorem C4_walled_in_by_unattackable_ring_witness:
  "wf_board (Board fort_ring_state)
   \<and> Board.BasePos (Board fort_ring_state) (YourPlayerID fort_ring_state) = Some \<lparr>Row = 2, Col = 2\<rparr>
   \<and> IsOwnedBy (Board fort_ring_state) \<lparr>Row = 2, Col = 2\<rparr> (YourPlayerID fort_ring_state)
   \<and> length (GetNeighbors (Board fort_ring_state) \<lparr>Row = 2, Col = 2\<rparr>) = 8
   \<and> list_all (\<lambda>n. GetCell (Board fort_ring_state) n \<noteq> CellEmpty
           \<and> Player (GetCell (Board fort_ring_state) n) \<noteq> YourPlayerID fort_ring_state
           \<and> \<not> CanBeAttacked (GetCell (Board fort_ring_state) n))
         (GetNeighbors (Board fort_ring_state) \<lparr>Row = 2, Col = 2\<rparr>)
   \<and> Heuristic_DecideMoves DefaultFactors fort_ring_state 3 = Inr []
   \<and> MCTS_DecideMoves (Some (\<lambda>k. 0)) fort_ring_state 3 = Some (Inr [])"
proof -
  have w: "wf_board (Board fort_ring_state)"
    by (simp add: fort_ring_state_def fort_ring_board_def wf_board_def)
  have b: "Board.BasePos (Board fort_ring_state) (YourPlayerID fort_ring_state) = Some \<lparr>Row = 2, Col = 2\<rparr>"
    by (simp add: fort_ring_state_def fort_ring_board_def)
  have o: "IsOwnedBy (Board fort_ring_state) \<lparr>Row = 2, Col = 2\<rparr> (YourPlayerID fort_ring_state)"
    by code_simp
  have l: "length (GetNeighbors (Board fort_ring_state) \<lparr>Row = 2, Col = 2\<rparr>) = 8"
    by code_simp
  have r: "\<forall>n \<in> set (GetNeighbors (Board fort_ring_state) \<lparr>Row = 2, Col = 2\<rparr>).
           GetCell (Board fort_ring_state) n \<noteq> CellEmpty
           \<and> Player (GetCell (Board fort_ring_state) n) \<noteq> YourPlayerID fort_ring_state
           \<and> \<not> CanBeAttacked (GetCell (Board fort_ring_state) n)"
    by code_simp
  from w b o l r
    C4_walled_in_by_unattackable_ring [OF w b o r, of DefaultFactors 3 "Some (\<lambda>k. 0)"]
  show ?thesis unfolding list_all_iff by blast
qed

text \<open>
  With the normal flag on the eight cells of the ring the attack moves on them are
  legal, and both strategies return some of them.
\<close>

theorem C4_ring_counterexample:
  "IsMyTurn ring_state
   \<and> GetPlayerCells (Board ring_state) 1 = [\<lparr>Row = 2, Col = 2\<rparr>]
   \<and> map (GetCell (Board ring_state)) (GetNeighbors (Board ring_state) \<lparr>Row = 2, Col = 2\<rparr>)
      = [CellPlayer2, CellPlayer2, CellPlayer2, CellPlayer2,
         CellPlayer2, CellPlayer2, CellPlayer2, CellPlayer2]
   \<and> Heuristic_DecideMoves DefaultFactors ring_state 3
      = Inr [\<lparr>Position = \<lparr>Row = 1, Col = 1\<rparr>, Type = MoveAttack, FromCell = \<lparr>Row = 2, Col = 2\<rparr>\<rparr>]
   \<and> MCTS_DecideMoves (Some (\<lambda>k. 0)) ring_state 3
      = Some (Inr [\<lparr>Position = \<lparr>Row = 1, Col = 2\<rparr>, Type = MoveAttack, FromCell = \<lparr>Row = 2, Col = 2\<rparr>\<rparr>,
                   \<lparr>Position = \<lparr>Row = 3, Col = 2\<rparr>, Type = MoveAttack, FromCell = \<lparr>Row = 2, Col = 2\<rparr>\<rparr>,
                   \<lparr>Position = \<lparr>Row = 2, Col = 1\<rparr>, Type = MoveAttack, FromCell = \<lparr>Row = 2, Col = 2\<rparr>\<rparr>])"
  by code_simp

section \<open>Repeated targets\<close>











section \<open>Applying a move\<close>

text \<open>
  C2. The specification asks that the board of the new state have the target cell owned
  by the acting player. \<^verbatim>\<open>GameState.ApplyMove\<close> drops the board that
  \<^verbatim>\<open>Board.ApplyMove\<close> returns: after the attack of player 1 on (1,1) the cell still
  belongs to player 2, while \<^verbatim>\<open>Board.ApplyMove\<close> on the same board gives the cell to
  player 1.
\<close>

theorem C2_apply_move_leaves_target:
  "player_index (Players ring_state) (CurrentPlayer ring_state) = Some 0
   \<and> GetCell (Board ring_state) \<lparr>Row = 1, Col = 1\<rparr> = CellPlayer2
   \<and> GetCell (Board (ApplyMove ring_state
        \<lparr>Position = \<lparr>Row = 1, Col = 1\<rparr>, Type = MoveAttack, FromCell = \<lparr>Row = 2, Col = 2\<rparr>\<rparr>))
        \<lparr>Row = 1, Col = 1\<rparr> = CellPlayer2
   \<and> GetCell (Board_ApplyMove (Board ring_state) \<lparr>Row = 1, Col = 1\<rparr> 1 True)
        \<lparr>Row = 1, Col = 1\<rparr> = CellPlayer1"
  by code_simp

text \<open>
  C6. The specification asks that after a capture a player be marked not-alive exactly
  when it owns no cell. The capture loop calls \<^verbatim>\<open>RemoveCell\<close> on every alive player
  other than the bot, the mover included: player 2, whose list is its base (4,4),
  recaptures (4,4), loses its only listed cell, is marked not-alive, and then receives
  the cell. It ends not-alive with one listed cell and one cell on the board.
\<close>

theorem C6_mover_marked_dead:
  "\<lparr>Position = \<lparr>Row = 4, Col = 4\<rparr>, Type = MoveAttack, FromCell = \<lparr>Row = 4, Col = 3\<rparr>\<rparr>
     \<in> set (GetValidMoves (Board recapture_state) (CurrentPlayer recapture_state))
   \<and> map (\<lambda>p. (ID p, IsAlive p, Player.Cells p))
        (Players (ApplyMove recapture_state
           \<lparr>Position = \<lparr>Row = 4, Col = 4\<rparr>, Type = MoveAttack, FromCell = \<lparr>Row = 4, Col = 3\<rparr>\<rparr>))
      = [(1, True, [\<lparr>Row = 0, Col = 0\<rparr>]), (2, False, [\<lparr>Row = 4, Col = 4\<rparr>])]
   \<and> GetPlayerCells (Board (ApplyMove recapture_state
           \<lparr>Position = \<lparr>Row = 4, Col = 4\<rparr>, Type = MoveAttack, FromCell = \<lparr>Row = 4, Col = 3\<rparr>\<rparr>)) 2
      = [\<lparr>Row = 4, Col = 3\<rparr>]"
  by code_simp

section \<open>Connection to a lost base\<close>

text \<open>
  C3. The specification asks that the test of a legal origin start from a remaining
  cell once the base is lost. \<^verbatim>\<open>GetReachableCells\<close> does; \<^verbatim>\<open>IsConnectedToBase\<close>
  always starts from the base position: on \<open>base_lost_board\<close> it accepts the lost base
  (4,4), which player 2 does not own, and rejects the two cells that
  \<^verbatim>\<open>GetReachableCells\<close> returns.
\<close>

theorem C3_connected_without_fallback:
  "Board.BasePos base_lost_board 2 = Some \<lparr>Row = 4, Col = 4\<rparr>
   \<and> \<not> IsOwnedBy base_lost_board \<lparr>Row = 4, Col = 4\<rparr> 2
   \<and> IsConnectedToBase base_lost_board 2 \<lparr>Row = 4, Col = 4\<rparr>
   \<and> IsOwnedBy base_lost_board \<lparr>Row = 4, Col = 2\<rparr> 2
   \<and> GetReachableCells base_lost_board 2 = [\<lparr>Row = 3, Col = 2\<rparr>, \<lparr>Row = 4, Col = 2\<rparr>]
   \<and> \<not> IsConnectedToBase base_lost_board 2 \<lparr>Row = 4, Col = 2\<rparr>
   \<and> \<not> IsConnectedToBase base_lost_board 2 \<lparr>Row = 3, Col = 2\<rparr>"
  by code_simp

end
